theory Spec2Isabelle
  imports Complex_Main "HOL-Library.Multiset"
begin

section \<open>OpenCello mold generator: geometry pipeline of mold_gen_blockflats_pins.py\<close>

text \<open>
  The script computes with Python floats; here every coordinate, length and area is a
  \<open>real\<close>, so the arithmetic is exact. A point is a pair \<open>(x, y)\<close>.

  The polygon kernel (shapely) is not part of the repository. The functions of the
  script are therefore written over a record of the kernel operations they call; the
  record is passed as their first argument. Theorems about the control flow of the
  script hold for every value of the record.
\<close>

type_synonym point = "real \<times> real"

datatype error = RuntimeError string | ValueError string

record 'g shapely =
  Polygon :: "point list \<Rightarrow> 'g"
  Point :: "real \<Rightarrow> real \<Rightarrow> 'g"
  LineString :: "point list \<Rightarrow> 'g"
  intersection :: "'g \<Rightarrow> 'g \<Rightarrow> 'g"
  is_empty :: "'g \<Rightarrow> bool"
  geom_type :: "'g \<Rightarrow> string"
  geoms :: "'g \<Rightarrow> 'g list"
  area :: "'g \<Rightarrow> real"
  bounds :: "'g \<Rightarrow> real \<times> real \<times> real \<times> real"
  contains :: "'g \<Rightarrow> 'g \<Rightarrow> bool"
  buffer :: "'g \<Rightarrow> real \<Rightarrow> 'g"
  split_by :: "'g \<Rightarrow> 'g \<Rightarrow> 'g"
  exterior_ring :: "'g \<Rightarrow> 'g"
  ring_length :: "'g \<Rightarrow> real"
  interpolate :: "'g \<Rightarrow> real \<Rightarrow> point"

subsection \<open>Half-plane clipping\<close>

text \<open>\<open>math.hypot\<close>.\<close>

definition hypot :: "real \<Rightarrow> real \<Rightarrow> real" where
  "hypot x y = sqrt (x\<^sup>2 + y\<^sup>2)"

definition normalize_v :: "point \<Rightarrow> point" where
  "normalize_v v =
     (let n = hypot (fst v) (snd v)
      in if n < 1 / 10 ^ 12 then (0, 0) else (fst v / n, snd v / n))"

text \<open>The four vertices \<open>[a, b, c, d]\<close> that \<open>half_plane_polygon\<close> hands to \<open>Polygon\<close>.\<close>

definition half_plane_ring :: "point \<Rightarrow> point \<Rightarrow> bool \<Rightarrow> real \<Rightarrow> point list" where
  "half_plane_ring p0 n_out keep_inside extent =
     (let (nx, ny) = normalize_v n_out;
          tx = - ny; ty = nx;
          a = (fst p0 + tx * extent, snd p0 + ty * extent);
          b = (fst p0 - tx * extent, snd p0 - ty * extent);
          c = (if keep_inside then (fst b - nx * extent, snd b - ny * extent)
               else (fst b + nx * extent, snd b + ny * extent));
          d = (if keep_inside then (fst a - nx * extent, snd a - ny * extent)
               else (fst a + nx * extent, snd a + ny * extent))
      in [a, b, c, d])"

definition half_plane_polygon ::
  "'g shapely \<Rightarrow> point \<Rightarrow> point \<Rightarrow> bool \<Rightarrow> real \<Rightarrow> 'g" where
  "half_plane_polygon lib p0 n_out keep_inside extent =
     Polygon lib (half_plane_ring p0 n_out keep_inside extent)"

text \<open>
  Python's \<open>max(xs, key=f)\<close>: the first element whose key is maximal; on an empty
  sequence it raises \<open>ValueError\<close>.
\<close>

fun max_key_from :: "('a \<Rightarrow> real) \<Rightarrow> 'a \<Rightarrow> 'a list \<Rightarrow> 'a" where
  "max_key_from f best [] = best"
| "max_key_from f best (y # ys) = max_key_from f (if f best < f y then y else best) ys"

fun max_key :: "('a \<Rightarrow> real) \<Rightarrow> 'a list \<Rightarrow> error + 'a" where
  "max_key f [] = Inl (ValueError ''max() arg is an empty sequence'')"
| "max_key f (x # xs) = Inr (max_key_from f x xs)"

definition clip_with_flat :: "'g shapely \<Rightarrow> 'g \<Rightarrow> point \<Rightarrow> point \<Rightarrow> error + 'g" where
  "clip_with_flat lib poly p0 n_out =
     (let hp = half_plane_polygon lib p0 n_out True 10000;
          out = intersection lib poly hp
      in if is_empty lib out
         then Inl (RuntimeError ''Flat clipping produced empty geometry. Check parameters.'')
         else if geom_type lib out = ''MultiPolygon''
         then max_key (area lib) (geoms lib out)
         else Inr out)"

subsection \<open>Corner detection\<close>

text \<open>
  \<open>np.linspace(0, L, n, endpoint=False)\<close> is \<open>0, L/n, 2L/n, ...\<close>; each value is
  interpolated on the exterior ring.
\<close>

definition sample_exterior :: "'g shapely \<Rightarrow> 'g \<Rightarrow> nat \<Rightarrow> point list" where
  "sample_exterior lib poly n =
     (let ring = exterior_ring lib poly;
          L = ring_length lib ring
      in map (\<lambda>j. interpolate lib ring (real j * (L / real n))) [0..<n])"

definition vsub :: "point \<Rightarrow> point \<Rightarrow> point" where
  "vsub p q = (fst p - fst q, snd p - snd q)"

definition dot :: "point \<Rightarrow> point \<Rightarrow> real" where
  "dot v w = fst v * fst w + snd v * snd w"

text \<open>
  The body of the loop of \<open>curvature_peaks\<close> for one index \<open>i\<close>; an entry the loop
  skips keeps the \<open>0\<close> of \<open>np.zeros\<close>. The neighbours are taken \<open>3\<close> samples away;
  \<open>(i - 3) % N\<close> is Python's non-negative remainder.
\<close>

definition score_at :: "point list \<Rightarrow> nat \<Rightarrow> real" where
  "score_at pts i =
     (let N = length pts;
          p0 = pts ! nat ((int i - 3) mod int N);
          p1 = pts ! i;
          p2 = pts ! ((i + 3) mod N);
          v1 = vsub p0 p1;
          v2 = vsub p2 p1;
          n1 = hypot (fst v1) (snd v1);
          n2 = hypot (fst v2) (snd v2)
      in if n1 < 1 / 10 ^ 9 \<or> n2 < 1 / 10 ^ 9 then 0
         else (let w1 = (fst v1 / n1, snd v1 / n1);
                   w2 = (fst v2 / n2, snd v2 / n2)
               in arccos (max (- 1) (min 1 (dot w1 w2)))))"

text \<open>
  \<open>np.argsort(-score)\<close>: the indices ordered by descending score. numpy leaves the
  order among equal scores to its sorting routine; the model keeps equal scores in
  index order.
\<close>

definition argsort_desc :: "real list \<Rightarrow> nat list" where
  "argsort_desc score = sort_key (\<lambda>i. - (score ! i)) [0..<length score]"

definition curvature_peaks :: "point list \<Rightarrow> nat \<Rightarrow> nat list \<times> real list" where
  "curvature_peaks pts k =
     (let N = length pts;
          score = map (score_at pts) [0..<N];
          idx = argsort_desc score
      in (idx, score))"

text \<open>The inner function \<open>pick_two_by_long\<close> with the two variables it closes over.\<close>

definition pick_two_by_long :: "real list \<Rightarrow> real \<Rightarrow> nat list \<Rightarrow> nat list" where
  "pick_two_by_long longcoord mid_long inds =
     (let a = filter (\<lambda>i. mid_long \<le> longcoord ! i) inds;
          b = filter (\<lambda>i. longcoord ! i < mid_long) inds
      in if a = [] \<or> b = [] then take 2 inds else [hd a, hd b])"

text \<open>The candidate list \<open>cand\<close> of \<open>pick_four_corners\<close> (the waist band and its fallback).\<close>

definition waist_lo :: "real \<Rightarrow> real \<Rightarrow> real" where
  "waist_lo mn mx = mn + 0.25 * (mx - mn)"

definition waist_hi :: "real \<Rightarrow> real \<Rightarrow> real" where
  "waist_hi mn mx = mn + 0.75 * (mx - mn)"

definition candidates :: "real list \<Rightarrow> real \<Rightarrow> real \<Rightarrow> nat list \<Rightarrow> nat list" where
  "candidates long mn mx idx =
     (let lo = waist_lo mn mx;
          hi = waist_hi mn mx;
          band = map (\<lambda>v. lo \<le> v \<and> v \<le> hi) long;
          cand = filter (\<lambda>i. band ! i) (take 400 idx)
      in if length cand < 20 then take 400 idx else cand)"

text \<open>
  Lines 174 to 212 of the script: from the samples, their ranking and the bounding box
  to the indices \<open>u2 + l2\<close> of the chosen corners.
\<close>

definition corner_indices ::
  "point list \<Rightarrow> nat list \<Rightarrow> real \<times> real \<times> real \<times> real \<Rightarrow> bool \<Rightarrow> nat list" where
  "corner_indices pts idx bb axis_is_x =
     (let (minx, miny, maxx, maxy) = bb;
          cx = 0.5 * (minx + maxx);
          cy = 0.5 * (miny + maxy);
          mid_long = (if axis_is_x then cx else cy);
          long = (if axis_is_x then map fst pts else map snd pts);
          side = (if axis_is_x then map snd pts else map fst pts);
          longcoord = long;
          cand = (if axis_is_x then candidates long minx maxx idx
                  else candidates long miny maxy idx);
          upper = filter (\<lambda>i. 0 \<le> side ! i) cand;
          lower = filter (\<lambda>i. side ! i < 0) cand;
          u2 = pick_two_by_long longcoord mid_long upper;
          l2 = pick_two_by_long longcoord mid_long lower
      in u2 @ l2)"

definition pick_four_corners :: "'g shapely \<Rightarrow> 'g \<Rightarrow> bool \<Rightarrow> point list \<times> point" where
  "pick_four_corners lib poly axis_is_x =
     (let pts = sample_exterior lib poly 2500;
          (minx, miny, maxx, maxy) = bounds lib poly;
          cx = 0.5 * (minx + maxx);
          cy = 0.5 * (miny + maxy);
          (idx, score) = curvature_peaks pts 5;
          corners = map (\<lambda>i. pts ! i) (corner_indices pts idx (minx, miny, maxx, maxy) axis_is_x)
      in (corners, (cx, cy)))"

subsection \<open>Pins and splitting\<close>

definition default_pins ::
  "'g shapely \<Rightarrow> 'g \<Rightarrow> bool \<Rightarrow> real option \<Rightarrow> real \<Rightarrow> (real \<times> real \<times> real) list" where
  "default_pins lib poly axis_is_x x_center pin_diam =
     (let (minx, miny, maxx, maxy) = bounds lib poly;
          cx = 0.5 * (minx + maxx);
          cy = 0.5 * (miny + maxy);
          x_center' = (case x_center of None \<Rightarrow> (if axis_is_x then cx else cy) | Some v \<Rightarrow> v);
          r = 0.5 * pin_diam
      in if axis_is_x
         then (let xs = [minx + 0.25 * (maxx - minx), minx + 0.50 * (maxx - minx),
                         minx + 0.75 * (maxx - minx)]
               in map (\<lambda>x. (x, cy, r))
                    (filter (\<lambda>x. contains lib poly (buffer lib (Point lib x cy) (r * 1.2))) xs))
         else (let ys = [miny + 0.25 * (maxy - miny), miny + 0.50 * (maxy - miny),
                         miny + 0.75 * (maxy - miny)]
               in map (\<lambda>y. (cx, y, r))
                    (filter (\<lambda>y. contains lib poly (buffer lib (Point lib cx y) (r * 1.2))) ys)))"

text \<open>
  \<open>sorted(gs, key=area, reverse=True)\<close> is a stable sort by descending area: parts of
  equal area keep their order.
\<close>

definition sorted_desc :: "('a \<Rightarrow> real) \<Rightarrow> 'a list \<Rightarrow> 'a list" where
  "sorted_desc f xs = sort_key (\<lambda>g. - f g) xs"

text \<open>The line \<open>splitter\<close> that \<open>split_halves\<close> builds through the centre of the bounding box.\<close>

definition splitter :: "'g shapely \<Rightarrow> 'g \<Rightarrow> bool \<Rightarrow> 'g" where
  "splitter lib poly axis_is_x =
     (let (minx, miny, maxx, maxy) = bounds lib poly;
          cx = 0.5 * (minx + maxx);
          cy = 0.5 * (miny + maxy)
      in if axis_is_x then LineString lib [(minx - 1000, cy), (maxx + 1000, cy)]
         else LineString lib [(cx, miny - 1000), (cx, maxy + 1000)])"

definition split_halves :: "'g shapely \<Rightarrow> 'g \<Rightarrow> bool \<Rightarrow> error + ('g \<times> 'g)" where
  "split_halves lib poly axis_is_x =
     (let parts = split_by lib poly (splitter lib poly axis_is_x)
      in if length (geoms lib parts) < 2
         then Inl (RuntimeError ''Split did not produce two halves. Check axis orientation.'')
         else (let gs = take 2 (sorted_desc (area lib) (geoms lib parts))
               in Inr (gs ! 0, gs ! 1)))"

text \<open>
  The candidate centres of the pins as the specification words them: 25 percent, 50 percent and 75 percent of
  the longitudinal extent, on the lateral centre line of the bounding box.
\<close>

definition pin_candidates :: "real \<times> real \<times> real \<times> real \<Rightarrow> bool \<Rightarrow> point list" where
  "pin_candidates bb axis_is_x =
     (let (minx, miny, maxx, maxy) = bb
      in if axis_is_x
         then map (\<lambda>q. (minx + q * (maxx - minx), 0.5 * (miny + maxy))) [0.25, 0.50, 0.75]
         else map (\<lambda>q. (0.5 * (minx + maxx), miny + q * (maxy - miny))) [0.25, 0.50, 0.75])"

subsection \<open>Point sets: the half-plane, the clipping quadrilateral, the kernel contract\<close>

text \<open>
  What the clip does to the points of a polygon is stated over point sets. A convex
  ring of vertices covers the convex hull of its vertices. The keep region of a
  half-plane is \<open>{x. (x - p0) . n <= 0}\<close>, as the docstring of \<open>half_plane_polygon\<close> has
  it. \<open>keep_quad\<close> is the part of the keep region within \<open>extent\<close> of the anchor: the
  offset along the cut line is at most \<open>extent\<close> in absolute value and the offset along
  the normal is between \<open>- extent\<close> and \<open>0\<close>.
\<close>

definition convex_hull :: "point list \<Rightarrow> point set" where
  "convex_hull ps =
     {x. \<exists>ws. length ws = length ps \<and> (\<forall>w \<in> set ws. 0 \<le> w) \<and> sum_list ws = 1
            \<and> x = (sum_list (map2 (\<lambda>w p. w * fst p) ws ps),
                    sum_list (map2 (\<lambda>w p. w * snd p) ws ps))}"

definition normal_offset :: "point \<Rightarrow> point \<Rightarrow> point \<Rightarrow> real" where
  "normal_offset p0 n_out x = dot (vsub x p0) (normalize_v n_out)"

definition tangent_offset :: "point \<Rightarrow> point \<Rightarrow> point \<Rightarrow> real" where
  "tangent_offset p0 n_out x =
     dot (vsub x p0) (- snd (normalize_v n_out), fst (normalize_v n_out))"

definition keep_region :: "point \<Rightarrow> point \<Rightarrow> point set" where
  "keep_region p0 n_out = {x. dot (vsub x p0) n_out \<le> 0}"

definition remove_side :: "point \<Rightarrow> point \<Rightarrow> point set" where
  "remove_side p0 n_out = {x. 0 < dot (vsub x p0) n_out}"

definition within_extent :: "point \<Rightarrow> point \<Rightarrow> real \<Rightarrow> point set" where
  "within_extent p0 n_out extent =
     {x. \<bar>tangent_offset p0 n_out x\<bar> \<le> extent \<and> - extent \<le> normal_offset p0 n_out x}"

definition keep_quad :: "point \<Rightarrow> point \<Rightarrow> real \<Rightarrow> point set" where
  "keep_quad p0 n_out extent =
     {x. \<bar>tangent_offset p0 n_out x\<bar> \<le> extent \<and> - extent \<le> normal_offset p0 n_out x
         \<and> normal_offset p0 n_out x \<le> 0}"

text \<open>
  The contract of the kernel for one clip, relative to a function \<open>pts_of\<close> that gives
  the points a geometry covers: the polygon built from the ring of the half-plane
  covers the convex hull of the ring, the intersection covers the common points,
  \<open>is_empty\<close> holds when no point is covered, and a \<open>MultiPolygon\<close> has at least
  one part and each part is a \<open>Polygon\<close> that lies within it.
\<close>

definition clip_contract ::
  "'g shapely \<Rightarrow> ('g \<Rightarrow> point set) \<Rightarrow> 'g \<Rightarrow> point \<Rightarrow> point \<Rightarrow> bool" where
  "clip_contract lib pts_of poly p0 n_out =
     (let hp = half_plane_polygon lib p0 n_out True 10000;
          out = intersection lib poly hp
      in pts_of hp = convex_hull (half_plane_ring p0 n_out True 10000)
         \<and> pts_of out = pts_of poly \<inter> pts_of hp
         \<and> (is_empty lib out \<longleftrightarrow> pts_of out = {})
         \<and> (geom_type lib out = ''MultiPolygon'' \<longrightarrow>
              geoms lib out \<noteq> []
              \<and> (\<forall>g \<in> set (geoms lib out).
                    pts_of g \<subseteq> pts_of out \<and> geom_type lib g = ''Polygon'')))"

subsection \<open>A kernel for axis-parallel rectangles\<close>

text \<open>
  To run the functions on concrete outlines, \<open>rect_kernel\<close> implements the kernel
  operations for axis-parallel rectangles: \<open>RBox x0 y0 x1 y1\<close> is the rectangle
  \<open>[x0, x1] \<times> [y0, y1]\<close>, \<open>RMulti\<close> a multi-polygon of such rectangles,
  \<open>RColl\<close> a geometry collection, \<open>RDisk x y r\<close> a buffered point, \<open>RSeg\<close> a
  two-point line string and \<open>RRing\<close> the boundary of a rectangle, walked from
  \<open>(x0, y0)\<close> counter-clockwise. On operands outside this fragment the operations
  answer \<open>REmpty\<close>.
\<close>

datatype rgeom =
    REmpty
  | RBox real real real real
  | RMulti "rgeom list"
  | RColl "rgeom list"
  | RDisk real real real
  | RPt real real
  | RSeg point point
  | RRing real real real real

definition box_meet :: "real \<Rightarrow> real \<Rightarrow> real \<Rightarrow> real \<Rightarrow> real \<Rightarrow> real \<Rightarrow> real \<Rightarrow> real \<Rightarrow> rgeom" where
  "box_meet a0 b0 a1 b1 c0 d0 c1 d1 =
     (let x0 = max a0 c0; y0 = max b0 d0; x1 = min a1 c1; y1 = min b1 d1
      in if x0 < x1 \<and> y0 < y1 then RBox x0 y0 x1 y1
         else if x0 = x1 \<and> y0 = y1 then RPt x0 y0
         else if x0 \<le> x1 \<and> y0 \<le> y1 then RSeg (x0, y0) (x1, y1)
         else REmpty)"

fun is_box :: "rgeom \<Rightarrow> bool" where
  "is_box (RBox x0 y0 x1 y1) = True"
| "is_box g = False"

fun r_collect :: "rgeom list \<Rightarrow> rgeom" where
  "r_collect [] = REmpty"
| "r_collect [g] = g"
| "r_collect gs = RMulti gs"

fun r_intersection :: "rgeom \<Rightarrow> rgeom \<Rightarrow> rgeom" where
  "r_intersection (RBox a0 b0 a1 b1) (RBox c0 d0 c1 d1) = box_meet a0 b0 a1 b1 c0 d0 c1 d1"
| "r_intersection (RMulti gs) h = r_collect (filter is_box (map (\<lambda>g. r_intersection g h) gs))"
| "r_intersection g h = REmpty"

fun r_Polygon :: "point list \<Rightarrow> rgeom" where
  "r_Polygon [a, b, c, d] =
     (let x0 = min (fst a) (fst c); x1 = max (fst a) (fst c);
          y0 = min (snd a) (snd c); y1 = max (snd a) (snd c)
      in if x0 < x1 \<and> y0 < y1 \<and>
            (fst a = fst b \<and> snd b = snd c \<and> fst c = fst d \<and> snd d = snd a
             \<or> snd a = snd b \<and> fst b = fst c \<and> snd c = snd d \<and> fst d = fst a)
         then RBox x0 y0 x1 y1 else REmpty)"
| "r_Polygon ring = REmpty"

fun r_LineString :: "point list \<Rightarrow> rgeom" where
  "r_LineString [p, q] = RSeg p q"
| "r_LineString ps = REmpty"

fun r_is_empty :: "rgeom \<Rightarrow> bool" where
  "r_is_empty REmpty = True"
| "r_is_empty (RMulti gs) = (gs = [])"
| "r_is_empty (RColl gs) = (gs = [])"
| "r_is_empty g = False"

fun r_geom_type :: "rgeom \<Rightarrow> string" where
  "r_geom_type (RMulti gs) = ''MultiPolygon''"
| "r_geom_type (RColl gs) = ''GeometryCollection''"
| "r_geom_type (RPt x y) = ''Point''"
| "r_geom_type (RSeg p q) = ''LineString''"
| "r_geom_type (RRing x0 y0 x1 y1) = ''LineString''"
| "r_geom_type g = ''Polygon''"

fun r_geoms :: "rgeom \<Rightarrow> rgeom list" where
  "r_geoms (RMulti gs) = gs"
| "r_geoms (RColl gs) = gs"
| "r_geoms g = []"

fun r_area :: "rgeom \<Rightarrow> real" where
  "r_area (RBox x0 y0 x1 y1) = (x1 - x0) * (y1 - y0)"
| "r_area (RMulti gs) = sum_list (map r_area gs)"
| "r_area (RColl gs) = sum_list (map r_area gs)"
| "r_area (RDisk x y r) = pi * r\<^sup>2"
| "r_area g = 0"

fun r_bounds :: "rgeom \<Rightarrow> real \<times> real \<times> real \<times> real" where
  "r_bounds (RBox x0 y0 x1 y1) = (x0, y0, x1, y1)"
| "r_bounds g = (0, 0, 0, 0)"

fun r_contains :: "rgeom \<Rightarrow> rgeom \<Rightarrow> bool" where
  "r_contains (RBox x0 y0 x1 y1) (RDisk x y r) =
     (0 < r \<and> x0 \<le> x - r \<and> x + r \<le> x1 \<and> y0 \<le> y - r \<and> y + r \<le> y1)"
| "r_contains g h = False"

fun r_buffer :: "rgeom \<Rightarrow> real \<Rightarrow> rgeom" where
  "r_buffer (RPt x y) r = (if 0 < r then RDisk x y r else REmpty)"
| "r_buffer g r = g"

fun r_split :: "rgeom \<Rightarrow> rgeom \<Rightarrow> rgeom" where
  "r_split (RBox x0 y0 x1 y1) (RSeg p q) =
     (if snd p = snd q \<and> y0 < snd p \<and> snd p < y1
         \<and> min (fst p) (fst q) \<le> x0 \<and> x1 \<le> max (fst p) (fst q)
      then RColl [RBox x0 y0 x1 (snd p), RBox x0 (snd p) x1 y1]
      else if fst p = fst q \<and> x0 < fst p \<and> fst p < x1
         \<and> min (snd p) (snd q) \<le> y0 \<and> y1 \<le> max (snd p) (snd q)
      then RColl [RBox x0 y0 (fst p) y1, RBox (fst p) y0 x1 y1]
      else RColl [RBox x0 y0 x1 y1])"
| "r_split g h = RColl [g]"

fun r_exterior :: "rgeom \<Rightarrow> rgeom" where
  "r_exterior (RBox x0 y0 x1 y1) = RRing x0 y0 x1 y1"
| "r_exterior g = REmpty"

fun r_length :: "rgeom \<Rightarrow> real" where
  "r_length (RRing x0 y0 x1 y1) = 2 * ((x1 - x0) + (y1 - y0))"
| "r_length g = 0"

fun r_interpolate :: "rgeom \<Rightarrow> real \<Rightarrow> point" where
  "r_interpolate (RRing x0 y0 x1 y1) t =
     (let w = x1 - x0; h = y1 - y0
      in if t \<le> 0 then (x0, y0)
         else if t \<le> w then (x0 + t, y0)
         else if t \<le> w + h then (x1, y0 + (t - w))
         else if t \<le> 2 * w + h then (x1 - (t - w - h), y1)
         else if t \<le> 2 * w + 2 * h then (x0, y1 - (t - 2 * w - h))
         else (x0, y0))"
| "r_interpolate g t = (0, 0)"

definition rect_kernel :: "rgeom shapely" where
  "rect_kernel =
     \<lparr> Polygon = r_Polygon, Point = RPt, LineString = r_LineString,
       intersection = r_intersection, is_empty = r_is_empty, geom_type = r_geom_type,
       geoms = r_geoms, area = r_area, bounds = r_bounds, contains = r_contains,
       buffer = r_buffer, split_by = r_split, exterior_ring = r_exterior,
       ring_length = r_length, interpolate = r_interpolate \<rparr>"

text \<open>The points a geometry of the rectangle kernel covers.\<close>

fun r_points :: "rgeom \<Rightarrow> point set" where
  "r_points REmpty = {}"
| "r_points (RBox x0 y0 x1 y1) = {p. x0 \<le> fst p \<and> fst p \<le> x1 \<and> y0 \<le> snd p \<and> snd p \<le> y1}"
| "r_points (RMulti gs) = \<Union> (set (map r_points gs))"
| "r_points (RColl gs) = \<Union> (set (map r_points gs))"
| "r_points (RDisk x y r) = {p. (fst p - x)\<^sup>2 + (snd p - y)\<^sup>2 \<le> r\<^sup>2}"
| "r_points (RPt x y) = {(x, y)}"
| "r_points (RSeg p q) = convex_hull [p, q]"
| "r_points (RRing x0 y0 x1 y1) =
     {p. x0 \<le> fst p \<and> fst p \<le> x1 \<and> y0 \<le> snd p \<and> snd p \<le> y1
         \<and> (fst p = x0 \<or> fst p = x1 \<or> snd p = y0 \<or> snd p = y1)}"

subsection \<open>A kernel of bounding boxes\<close>

text \<open>
  A second kernel, in which a geometry is known by its bounding box alone:
  \<open>(x0, y0, x1, y1)\<close> is the rectangle \<open>[x0, x1] \<times> [y0, y1]\<close>, and it is empty when
  \<open>x1 < x0\<close> or \<open>y1 < y0\<close>. It is exact on axis-parallel rectangles. Every value of
  its geometry type is a rectangle, so its area is the area of the points covered.
\<close>

type_synonym bbox = "real \<times> real \<times> real \<times> real"

fun b_extend :: "bbox \<Rightarrow> point \<Rightarrow> bbox" where
  "b_extend (x0, y0, x1, y1) q = (min x0 (fst q), min y0 (snd q), max x1 (fst q), max y1 (snd q))"

fun b_of_points :: "point list \<Rightarrow> bbox" where
  "b_of_points [] = (1, 1, 0, 0)"
| "b_of_points (p # ps) = foldl b_extend (fst p, snd p, fst p, snd p) ps"

fun b_meet :: "bbox \<Rightarrow> bbox \<Rightarrow> bbox" where
  "b_meet (a0, b0, a1, b1) (c0, d0, c1, d1) = (max a0 c0, max b0 d0, min a1 c1, min b1 d1)"

fun b_is_empty :: "bbox \<Rightarrow> bool" where
  "b_is_empty (x0, y0, x1, y1) = (x1 < x0 \<or> y1 < y0)"

fun b_area :: "bbox \<Rightarrow> real" where
  "b_area (x0, y0, x1, y1) = max 0 (x1 - x0) * max 0 (y1 - y0)"

fun b_points :: "bbox \<Rightarrow> point set" where
  "b_points (x0, y0, x1, y1) = {p. x0 \<le> fst p \<and> fst p \<le> x1 \<and> y0 \<le> snd p \<and> snd p \<le> y1}"

fun b_contains :: "bbox \<Rightarrow> bbox \<Rightarrow> bool" where
  "b_contains (a0, b0, a1, b1) (c0, d0, c1, d1) =
     (c0 \<le> c1 \<and> d0 \<le> d1 \<and> a0 \<le> c0 \<and> c1 \<le> a1 \<and> b0 \<le> d0 \<and> d1 \<le> b1)"

fun b_buffer :: "bbox \<Rightarrow> real \<Rightarrow> bbox" where
  "b_buffer (x0, y0, x1, y1) r = (x0 - r, y0 - r, x1 + r, y1 + r)"

fun b_length :: "bbox \<Rightarrow> real" where
  "b_length (x0, y0, x1, y1) = 2 * (max 0 (x1 - x0) + max 0 (y1 - y0))"

fun b_interpolate :: "bbox \<Rightarrow> real \<Rightarrow> point" where
  "b_interpolate (x0, y0, x1, y1) t = r_interpolate (RRing x0 y0 x1 y1) t"

definition bbox_kernel :: "bbox shapely" where
  "bbox_kernel =
     \<lparr> Polygon = b_of_points, Point = (\<lambda>x y. (x, y, x, y)), LineString = b_of_points,
       intersection = b_meet, is_empty = b_is_empty, geom_type = (\<lambda>b. ''Polygon''),
       geoms = (\<lambda>b. []), area = b_area, bounds = (\<lambda>b. b), contains = b_contains,
       buffer = b_buffer, split_by = (\<lambda>b l. b), exterior_ring = (\<lambda>b. b),
       ring_length = b_length, interpolate = b_interpolate \<rparr>"

section \<open>Properties\<close>

subsection \<open>Selection of the corner candidates\<close>

lemma pick_two_by_long_subset: "set (pick_two_by_long lc m inds) \<subseteq> set inds"
proof -
  have a: "hd (filter P inds) \<in> set inds" if "filter P inds \<noteq> []" for P
    using that hd_in_set[of "filter P inds"] by auto
  show ?thesis
    unfolding pick_two_by_long_def Let_def
    using a set_take_subset[of 2 inds] by auto
qed

lemma pick_two_by_long_length: "length (pick_two_by_long lc m inds) \<le> 2"
  by (simp add: pick_two_by_long_def Let_def)

lemma candidates_subset: "set (candidates long mn mx idx) \<subseteq> set (take 400 idx)"
  by (auto simp: candidates_def Let_def)

lemma corner_indices_subset_candidates:
  "set (corner_indices pts idx (minx, miny, maxx, maxy) axis_is_x)
     \<subseteq> set (if axis_is_x then candidates (map fst pts) minx maxx idx
              else candidates (map snd pts) miny maxy idx)"
  using pick_two_by_long_subset
  by (fastforce simp: corner_indices_def Let_def)

lemma corner_indices_top: "set (corner_indices pts idx bb axis_is_x) \<subseteq> set (take 400 idx)"
proof -
  obtain minx miny maxx maxy where bb: "bb = (minx, miny, maxx, maxy)"
    by (cases bb) auto
  show ?thesis
    unfolding bb
    using corner_indices_subset_candidates[of pts idx minx miny maxx maxy axis_is_x]
      candidates_subset[of "map fst pts" minx maxx idx]
      candidates_subset[of "map snd pts" miny maxy idx]
    by (cases axis_is_x) auto
qed

lemma argsort_desc_perm: "mset (argsort_desc score) = mset [0..<length score]"
  by (simp add: argsort_desc_def)

lemma argsort_desc_sorted:
  "sorted_wrt (\<lambda>i j. score ! j \<le> score ! i) (argsort_desc score)"
proof -
  have "sorted (map (\<lambda>i. - (score ! i)) (argsort_desc score))"
    by (simp add: argsort_desc_def)
  then show ?thesis
    by (simp add: sorted_map)
qed

lemma length_sample_exterior: "length (sample_exterior lib poly n) = n"
  by (simp add: sample_exterior_def Let_def)

text \<open>
  C9. \<open>curvature_peaks\<close> does not depend on its parameter \<open>k\<close>: for the same points, any
  two values of \<open>k\<close> give the same scores and the same ordering of the indices, and each
  score is computed from the neighbours three samples before and after (\<open>score_at\<close>).
\<close>

theorem curvature_peaks_ignores_k:
  "curvature_peaks pts k1 = curvature_peaks pts k2
   \<and> snd (curvature_peaks pts k1) = map (score_at pts) [0..<length pts]"
  by (simp add: curvature_peaks_def Let_def)

text \<open>
  C10. Every corner returned by \<open>pick_four_corners\<close> is the sample at one of the first 400
  indices of the ranking; the ranking is a permutation of the 2500 sample indices in
  order of descending score, so these are 400 samples of highest score. No path of the
  selection looks at an index beyond the first 400.
\<close>

theorem corners_among_top_400:
  "let pts = sample_exterior lib poly 2500;
       idx = fst (curvature_peaks pts 5);
       score = snd (curvature_peaks pts 5)
   in set (fst (pick_four_corners lib poly axis_is_x)) \<subseteq> (\<lambda>i. pts ! i) ` set (take 400 idx)
      \<and> mset idx = mset [0..<2500]
      \<and> sorted_wrt (\<lambda>i j. score ! j \<le> score ! i) idx"
proof -
  define pts where "pts = sample_exterior lib poly 2500"
  define idx where "idx = fst (curvature_peaks pts 5)"
  define score where "score = snd (curvature_peaks pts 5)"
  have cp: "curvature_peaks pts 5 = (idx, score)"
    by (simp add: idx_def score_def)
  have idx: "idx = argsort_desc score" and len: "length score = 2500"
    using cp by (auto simp: curvature_peaks_def Let_def pts_def length_sample_exterior)
  have "fst (pick_four_corners lib poly axis_is_x)
          = map (\<lambda>i. pts ! i) (corner_indices pts idx (bounds lib poly) axis_is_x)"
    unfolding pick_four_corners_def pts_def[symmetric] Let_def cp
    by (simp add: case_prod_beta)
  then have a: "set (fst (pick_four_corners lib poly axis_is_x)) \<subseteq> (\<lambda>i. pts ! i) ` set (take 400 idx)"
    using corner_indices_top[of pts idx "bounds lib poly" axis_is_x] by auto
  have b: "mset idx = mset [0..<2500]"
    using argsort_desc_perm[of score] by (simp add: idx len)
  have c: "sorted_wrt (\<lambda>i j. score ! j \<le> score ! i) idx"
    unfolding idx by (rule argsort_desc_sorted)
  show ?thesis
    unfolding Let_def pts_def[symmetric] idx_def[symmetric] score_def[symmetric]
    using a b c by simp
qed

text \<open>
  C8. The candidates are the indices among the first 400 of the ranking whose
  longitudinal coordinate lies in the waist band, from 25 percent to 75 percent of the longitudinal
  extent of the bounding box; when fewer than 20 of them lie in the band, the candidates
  are the first 400 of the ranking instead. \<open>pick_four_corners\<close> selects its corners
  from these candidates, with the x coordinates and x extent when the axis is x and
  the y coordinates and y extent otherwise.
\<close>

theorem waist_band_candidates:
  assumes "\<forall>i \<in> set (take 400 idx). i < length long"
  shows "candidates long mn mx idx =
           (let top = take 400 idx;
                inband = filter (\<lambda>i. mn + (mx - mn) / 4 \<le> long ! i
                                      \<and> long ! i \<le> mn + 3 * (mx - mn) / 4) top
            in if length inband < 20 then top else inband)
         \<and> set (corner_indices pts idx (minx, miny, maxx, maxy) True)
              \<subseteq> set (candidates (map fst pts) minx maxx idx)
         \<and> set (corner_indices pts idx (minx, miny, maxx, maxy) False)
              \<subseteq> set (candidates (map snd pts) miny maxy idx)"
proof -
  have f: "filter (\<lambda>i. map (\<lambda>v. waist_lo mn mx \<le> v \<and> v \<le> waist_hi mn mx) long ! i) (take 400 idx)
         = filter (\<lambda>i. mn + (mx - mn) / 4 \<le> long ! i \<and> long ! i \<le> mn + 3 * (mx - mn) / 4)
             (take 400 idx)"
    using assms by (intro filter_cong) (auto simp: waist_lo_def waist_hi_def)
  have a: "candidates long mn mx idx =
           (let top = take 400 idx;
                inband = filter (\<lambda>i. mn + (mx - mn) / 4 \<le> long ! i
                                      \<and> long ! i \<le> mn + 3 * (mx - mn) / 4) top
            in if length inband < 20 then top else inband)"
    unfolding candidates_def Let_def f by simp
  show ?thesis
    using a corner_indices_subset_candidates[of pts idx minx miny maxx maxy True]
      corner_indices_subset_candidates[of pts idx minx miny maxx maxy False]
    by simp
qed

theorem waist_band_candidates_witness:
  "candidates [0, 1, 2, 3, 4, 5, 6, 7, 8, 9, 10, 11, 12, 13, 14, 15, 16, 17, 18, 19, 50, 60]
      (- 20) 60 [21, 0, 1, 2, 3, 4, 5, 6, 7, 8, 9, 10, 11, 12, 13, 14, 15, 16, 17, 18, 19, 20]
     = [0, 1, 2, 3, 4, 5, 6, 7, 8, 9, 10, 11, 12, 13, 14, 15, 16, 17, 18, 19]
   \<and> candidates [0, 5, 10] 0 10 [2, 1, 0] = [2, 1, 0]"
  using waist_band_candidates
          [of "[21, 0, 1, 2, 3, 4, 5, 6, 7, 8, 9, 10, 11, 12, 13, 14, 15, 16, 17, 18, 19, 20]"
              "[0, 1, 2, 3, 4, 5, 6, 7, 8, 9, 10, 11, 12, 13, 14, 15, 16, 17, 18, 19, 50, 60]"
              "- 20" 60]
        waist_band_candidates [of "[2, 1, 0]" "[0, 5, 10]" 0 10]
  by (simp add: Let_def)

text \<open>
  C2. \<open>pick_four_corners\<close> is documented to find four corners, two with \<open>y >= 0\<close> and
  two with \<open>y < 0\<close>. When every sample of the outline has a non-negative lateral
  coordinate (an outline drawn in the first quadrant), the lower group is empty, the
  fallback \<open>inds[:2]\<close> of \<open>pick_two_by_long\<close> has nothing to return for it, and at most
  two corners come back. The rectangle with corners \<open>(0, 0)\<close> and \<open>(400, 200)\<close> is such
  an outline.
\<close>

theorem pick_four_corners_one_sided:
  assumes "\<forall>p \<in> set (sample_exterior lib poly 2500). 0 \<le> snd p"
  shows "length (fst (pick_four_corners lib poly True)) \<le> 2"
proof -
  define pts where "pts = sample_exterior lib poly 2500"
  obtain idx score where cp: "curvature_peaks pts 5 = (idx, score)"
    by (cases "curvature_peaks pts 5") auto
  obtain minx miny maxx maxy where bb: "bounds lib poly = (minx, miny, maxx, maxy)"
    by (cases "bounds lib poly") auto
  have len: "length pts = 2500"
    by (simp add: pts_def length_sample_exterior)
  have "idx = argsort_desc score" "length score = 2500"
    using cp len by (auto simp: curvature_peaks_def Let_def)
  then have "set idx = {0..<2500}"
    using argsort_desc_perm[of score] by (metis mset_eq_setD set_upt)
  then have in_range: "\<forall>i \<in> set (candidates (map fst pts) minx maxx idx). i < length pts"
    using candidates_subset[of "map fst pts" minx maxx idx] set_take_subset[of 400 idx] len
    by fastforce
  have nonneg: "\<forall>i < length pts. 0 \<le> map snd pts ! i"
    using assms by (simp add: pts_def[symmetric])
  have lower: "filter (\<lambda>i. map snd pts ! i < 0) (candidates (map fst pts) minx maxx idx) = []"
    using in_range nonneg by (auto simp: filter_empty_conv not_less)
  have "fst (pick_four_corners lib poly True)
          = map (\<lambda>i. pts ! i) (corner_indices pts idx (minx, miny, maxx, maxy) True)"
    unfolding pick_four_corners_def pts_def[symmetric] Let_def cp bb by simp
  moreover have "corner_indices pts idx (minx, miny, maxx, maxy) True
      = pick_two_by_long (map fst pts) (0.5 * (minx + maxx))
          (filter (\<lambda>i. 0 \<le> map snd pts ! i) (candidates (map fst pts) minx maxx idx))
        @ pick_two_by_long (map fst pts) (0.5 * (minx + maxx))
          (filter (\<lambda>i. map snd pts ! i < 0) (candidates (map fst pts) minx maxx idx))"
    unfolding corner_indices_def Let_def by (simp only: prod.case if_True)
  moreover have "pick_two_by_long (map fst pts) (0.5 * (minx + maxx)) [] = []"
    by (simp add: pick_two_by_long_def)
  moreover note pick_two_by_long_length[of "map fst pts" "0.5 * (minx + maxx)"
      "filter (\<lambda>i. 0 \<le> map snd pts ! i) (candidates (map fst pts) minx maxx idx)"]
  ultimately show ?thesis by (simp add: lower)
qed

lemma r_interpolate_upper: "0 \<le> snd (r_interpolate (RRing 0 0 400 200) t)"
  by (simp add: Let_def)

theorem pick_four_corners_one_sided_witness:
  "length (fst (pick_four_corners rect_kernel (RBox 0 0 400 200) True)) \<le> 2"
proof -
  have "\<forall>p \<in> set (sample_exterior rect_kernel (RBox 0 0 400 200) 2500). 0 \<le> snd p"
    using r_interpolate_upper by (auto simp: sample_exterior_def rect_kernel_def Let_def)
  from pick_four_corners_one_sided[OF this] show ?thesis .
qed

lemma corner_indices_length: "length (corner_indices pts idx bb axis_is_x) \<le> 4"
proof -
  obtain minx miny maxx maxy where bb: "bb = (minx, miny, maxx, maxy)"
    by (cases bb) auto
  have "length (pick_two_by_long lc m xs @ pick_two_by_long lc m ys) \<le> 4" for lc m xs ys
    using pick_two_by_long_length[of lc m xs] pick_two_by_long_length[of lc m ys] by simp
  then show ?thesis
    unfolding bb corner_indices_def Let_def prod.case .
qed

text \<open>
  In every case \<open>pick_four_corners\<close> returns at most four corners: at most two from
  the upper group and at most two from the lower group.
\<close>

theorem pick_four_corners_at_most_four:
  "length (fst (pick_four_corners lib poly axis_is_x)) \<le> 4"
proof -
  have "fst (pick_four_corners lib poly axis_is_x)
          = map (\<lambda>i. sample_exterior lib poly 2500 ! i)
              (corner_indices (sample_exterior lib poly 2500)
                 (fst (curvature_peaks (sample_exterior lib poly 2500) 5))
                 (bounds lib poly) axis_is_x)"
    by (simp add: pick_four_corners_def Let_def case_prod_beta)
  then show ?thesis using corner_indices_length by simp
qed

subsection \<open>Pins\<close>

text \<open>
  C3. \<open>default_pins\<close> returns at most three holes; every hole has radius
  \<open>pin_diam / 2\<close> and the buffer of radius \<open>1.2 * (pin_diam / 2)\<close> around its centre is
  contained in the polygon. The holes are exactly the candidate centres whose buffer is
  contained, in order: the others are dropped and no error is raised. The disk is the
  kernel's \<open>Point(x, y).buffer(r)\<close>.
\<close>

theorem default_pins_validated:
  "length (default_pins lib poly axis_is_x x_center pin_diam) \<le> 3
   \<and> (\<forall>h \<in> set (default_pins lib poly axis_is_x x_center pin_diam).
         case h of (x, y, r) \<Rightarrow>
           r = 0.5 * pin_diam
           \<and> contains lib poly (buffer lib (Point lib x y) (1.2 * (pin_diam / 2))))
   \<and> default_pins lib poly axis_is_x x_center pin_diam
       = map (\<lambda>(x, y). (x, y, 0.5 * pin_diam))
           (filter (\<lambda>(x, y). contains lib poly (buffer lib (Point lib x y) (1.2 * (pin_diam / 2))))
              (pin_candidates (bounds lib poly) axis_is_x))"
proof -
  obtain minx miny maxx maxy where bb: "bounds lib poly = (minx, miny, maxx, maxy)"
    by (cases "bounds lib poly") auto
  have r: "0.5 * pin_diam * 1.2 = 1.2 * (pin_diam / 2)" by simp
  have c: "default_pins lib poly axis_is_x x_center pin_diam
       = map (\<lambda>(x, y). (x, y, 0.5 * pin_diam))
           (filter (\<lambda>(x, y). contains lib poly (buffer lib (Point lib x y) (1.2 * (pin_diam / 2))))
              (pin_candidates (bounds lib poly) axis_is_x))"
    unfolding default_pins_def pin_candidates_def bb Let_def r
    by (cases axis_is_x) simp_all
  have a: "length (default_pins lib poly axis_is_x x_center pin_diam) \<le> 3"
  proof -
    have "length (default_pins lib poly axis_is_x x_center pin_diam)
            \<le> length (pin_candidates (bounds lib poly) axis_is_x)"
      unfolding c by simp
    also have "\<dots> = 3"
      by (simp add: pin_candidates_def bb)
    finally show ?thesis .
  qed
  have b: "\<forall>h \<in> set (default_pins lib poly axis_is_x x_center pin_diam).
         case h of (x, y, r) \<Rightarrow>
           r = 0.5 * pin_diam
           \<and> contains lib poly (buffer lib (Point lib x y) (1.2 * (pin_diam / 2)))"
    unfolding c by auto
  show ?thesis using a b c by blast
qed

theorem default_pins_validated_witness:
  "default_pins rect_kernel (RBox 0 0 280 200) True None 6
     = [(70, 100, 3), (140, 100, 3), (210, 100, 3)]
   \<and> contains rect_kernel (RBox 0 0 280 200) (buffer rect_kernel (Point rect_kernel 70 100) 3.6)
   \<and> default_pins rect_kernel (RBox 0 0 280 7) True None 6 = []"
  using default_pins_validated [of rect_kernel "RBox 0 0 280 200" True None 6]
        default_pins_validated [of rect_kernel "RBox 0 0 280 7" True None 6]
  by (simp add: pin_candidates_def rect_kernel_def)

subsection \<open>Splitting\<close>

lemma sorted_desc_two:
  assumes "2 \<le> length xs"
  shows "\<exists>a b rest. sorted_desc f xs = a # b # rest \<and> mset xs = {#a, b#} + mset rest
           \<and> f b \<le> f a \<and> (\<forall>g \<in> set rest. f g \<le> f b)"
proof -
  let ?s = "sorted_desc f xs"
  have len: "length ?s = length xs" by (simp add: sorted_desc_def)
  then obtain a b rest where s: "?s = a # b # rest"
    using assms by (cases ?s; cases "tl ?s") auto
  have m: "mset ?s = mset xs" by (simp add: sorted_desc_def)
  have "sorted (map (\<lambda>g. - f g) ?s)" by (simp add: sorted_desc_def)
  then have "f b \<le> f a" "\<forall>g \<in> set rest. f g \<le> f b"
    unfolding s by auto
  moreover have "mset xs = {#a, b#} + mset rest"
    using m unfolding s by simp
  ultimately show ?thesis using s by blast
qed

text \<open>
  C4. With fewer than two parts of the split, \<open>split_halves\<close> raises its
  \<open>RuntimeError\<close>; otherwise it returns two of the parts, \<open>a\<close> and \<open>b\<close>, such that
  \<open>a\<close> is at least as large as \<open>b\<close> and \<open>b\<close> at least as large as every other part.
\<close>

theorem split_halves_two_largest:
  "(length (geoms lib (split_by lib poly (splitter lib poly axis_is_x))) < 2 \<longrightarrow>
      split_halves lib poly axis_is_x
        = Inl (RuntimeError ''Split did not produce two halves. Check axis orientation.''))
   \<and> (2 \<le> length (geoms lib (split_by lib poly (splitter lib poly axis_is_x))) \<longrightarrow>
        (\<exists>a b rest. split_halves lib poly axis_is_x = Inr (a, b)
           \<and> mset (geoms lib (split_by lib poly (splitter lib poly axis_is_x)))
               = {#a, b#} + mset rest
           \<and> area lib b \<le> area lib a
           \<and> (\<forall>g \<in> set rest. area lib g \<le> area lib b)))"
proof (intro conjI impI)
  assume "length (geoms lib (split_by lib poly (splitter lib poly axis_is_x))) < 2"
  then show "split_halves lib poly axis_is_x
        = Inl (RuntimeError ''Split did not produce two halves. Check axis orientation.'')"
    by (simp add: split_halves_def Let_def)
next
  let ?gs = "geoms lib (split_by lib poly (splitter lib poly axis_is_x))"
  assume two: "2 \<le> length ?gs"
  from sorted_desc_two[OF two, of "area lib"]
  obtain a b rest where s: "sorted_desc (area lib) ?gs = a # b # rest"
    and m: "mset ?gs = {#a, b#} + mset rest"
    and o: "area lib b \<le> area lib a" "\<forall>g \<in> set rest. area lib g \<le> area lib b"
    by blast
  have "split_halves lib poly axis_is_x = Inr (a, b)"
    using two by (simp add: split_halves_def Let_def s)
  then show "\<exists>a b rest. split_halves lib poly axis_is_x = Inr (a, b)
           \<and> mset ?gs = {#a, b#} + mset rest
           \<and> area lib b \<le> area lib a
           \<and> (\<forall>g \<in> set rest. area lib g \<le> area lib b)"
    using m o by blast
qed

theorem split_halves_two_largest_witness:
  "split_halves rect_kernel (RBox 0 0 280 200) True = Inr (RBox 0 0 280 100, RBox 0 100 280 200)
   \<and> split_halves rect_kernel (RBox 0 0 280 200) False = Inr (RBox 0 0 140 200, RBox 140 0 280 200)
   \<and> split_halves rect_kernel (RPt 0 0) True
       = Inl (RuntimeError ''Split did not produce two halves. Check axis orientation.'')"
  using split_halves_two_largest [of rect_kernel "RBox 0 0 280 200" True]
        split_halves_two_largest [of rect_kernel "RPt 0 0" True]
  by (simp add: split_halves_def splitter_def rect_kernel_def sorted_desc_def)

subsection \<open>Clipping: the choice of the component\<close>

lemma max_key_from_in: "max_key_from f b xs \<in> set (b # xs)"
  by (induction xs arbitrary: b) (auto split: if_splits)

lemma max_key_from_ge: "f b \<le> f (max_key_from f b xs)"
proof (induction xs arbitrary: b)
  case Nil
  then show ?case by simp
next
  case (Cons y ys)
  have "f b \<le> f (if f b < f y then y else b)" by simp
  also have "\<dots> \<le> f (max_key_from f (if f b < f y then y else b) ys)"
    by (rule Cons.IH)
  finally show ?case by simp
qed

lemma max_key_from_max: "x \<in> set (b # xs) \<Longrightarrow> f x \<le> f (max_key_from f b xs)"
proof (induction xs arbitrary: b)
  case Nil
  then show ?case by simp
next
  case (Cons y ys)
  let ?b = "if f b < f y then y else b"
  have ge: "f ?b \<le> f (max_key_from f ?b ys)" by (rule max_key_from_ge)
  from Cons.prems consider "x = b" | "x = y" | "x \<in> set ys" by auto
  then show ?case
  proof cases
    case 1
    then have "f x \<le> f ?b" by simp
    with ge show ?thesis by simp
  next
    case 2
    then have "f x \<le> f ?b" by simp
    with ge show ?thesis by simp
  next
    case 3
    then have "x \<in> set (?b # ys)" by simp
    from Cons.IH[OF this] show ?thesis by simp
  qed
qed

lemma max_key_largest:
  assumes "xs \<noteq> []"
  shows "\<exists>g \<in> set xs. max_key f xs = Inr g \<and> (\<forall>h \<in> set xs. f h \<le> f g)"
proof -
  from assms obtain b ys where xs: "xs = b # ys" by (cases xs) auto
  show ?thesis
    unfolding xs using max_key_from_in[of f b ys] max_key_from_max[of _ b ys f]
    by auto
qed

lemma hp_ring_x: "half_plane_ring (x, y) (1, 0) True 10000
   = [(x, y + 10000), (x, y - 10000), (x - 10000, y - 10000), (x - 10000, y + 10000)]"
  by (simp add: half_plane_ring_def normalize_v_def hypot_def)

subsection \<open>Clipping: the points that remain\<close>

lemma convex_hull_4:
  "convex_hull [a, b, c, d] =
     {x. \<exists>wa wb wc wd. 0 \<le> wa \<and> 0 \<le> wb \<and> 0 \<le> wc \<and> 0 \<le> wd \<and> wa + wb + wc + wd = 1
           \<and> x = (wa * fst a + wb * fst b + wc * fst c + wd * fst d,
                   wa * snd a + wb * snd b + wc * snd c + wd * snd d)}"
  (is "?L = ?R")
proof
  show "?L \<subseteq> ?R"
  proof
    fix x assume "x \<in> ?L"
    then obtain ws where len: "length ws = length [a, b, c, d]"
      and nn: "\<forall>w \<in> set ws. 0 \<le> w"
      and s: "sum_list ws = 1"
      and x: "x = (sum_list (map2 (\<lambda>w p. w * fst p) ws [a, b, c, d]),
                   sum_list (map2 (\<lambda>w p. w * snd p) ws [a, b, c, d]))"
      unfolding convex_hull_def by blast
    from len obtain wa wb wc wd where ws: "ws = [wa, wb, wc, wd]"
      by (auto simp: length_Suc_conv numeral_eq_Suc)
    show "x \<in> ?R"
      using nn s x unfolding ws by (auto simp: add.assoc)
  qed
  show "?R \<subseteq> ?L"
  proof
    fix x assume "x \<in> ?R"
    then obtain wa wb wc wd where h: "0 \<le> wa" "0 \<le> wb" "0 \<le> wc" "0 \<le> wd"
      "wa + wb + wc + wd = 1"
      "x = (wa * fst a + wb * fst b + wc * fst c + wd * fst d,
            wa * snd a + wb * snd b + wc * snd c + wd * snd d)"
      by auto
    show "x \<in> ?L"
      unfolding convex_hull_def
      by (rule CollectI, rule exI[of _ "[wa, wb, wc, wd]"]) (use h in \<open>auto simp: add.assoc\<close>)
  qed
qed

lemma normalize_v_unit:
  assumes "1 / 10 ^ 12 \<le> hypot (fst v) (snd v)"
  shows "(fst (normalize_v v))\<^sup>2 + (snd (normalize_v v))\<^sup>2 = 1"
proof -
  let ?h = "hypot (fst v) (snd v)"
  have pos: "0 < ?h" using assms by (smt (verit) zero_less_divide_1_iff zero_less_power)
  have sq: "?h\<^sup>2 = (fst v)\<^sup>2 + (snd v)\<^sup>2"
    by (simp add: hypot_def)
  have n: "normalize_v v = (fst v / ?h, snd v / ?h)"
    using assms by (simp add: normalize_v_def Let_def not_less[symmetric])
  have "(fst v / ?h)\<^sup>2 + (snd v / ?h)\<^sup>2 = ((fst v)\<^sup>2 + (snd v)\<^sup>2) / ?h\<^sup>2"
    by (simp add: power_divide add_divide_distrib)
  also have "\<dots> = 1" using pos by (simp add: sq[symmetric])
  finally show ?thesis by (simp add: n)
qed

lemma normalize_v_scale:
  assumes "1 / 10 ^ 12 \<le> hypot (fst v) (snd v)"
  shows "\<exists>h > 0. normalize_v v = (fst v / h, snd v / h)"
proof -
  let ?h = "hypot (fst v) (snd v)"
  have pos: "0 < ?h" using assms by (smt (verit) zero_less_divide_1_iff zero_less_power)
  have n: "normalize_v v = (fst v / ?h, snd v / ?h)"
    using assms by (simp add: normalize_v_def Let_def not_less[symmetric])
  show ?thesis using pos n by blast
qed

lemma normal_offset_sign:
  assumes "1 / 10 ^ 12 \<le> hypot (fst n_out) (snd n_out)"
  shows "normal_offset p0 n_out x \<le> 0 \<longleftrightarrow> dot (vsub x p0) n_out \<le> 0"
    and "0 < normal_offset p0 n_out x \<longleftrightarrow> 0 < dot (vsub x p0) n_out"
proof -
  from normalize_v_scale[OF assms] obtain h where h: "0 < h"
    and n: "normalize_v n_out = (fst n_out / h, snd n_out / h)" by blast
  have e: "normal_offset p0 n_out x = dot (vsub x p0) n_out / h"
    by (simp add: normal_offset_def n dot_def add_divide_distrib)
  show "normal_offset p0 n_out x \<le> 0 \<longleftrightarrow> dot (vsub x p0) n_out \<le> 0"
    unfolding e using h by (simp add: divide_le_0_iff)
  show "0 < normal_offset p0 n_out x \<longleftrightarrow> 0 < dot (vsub x p0) n_out"
    unfolding e using h by (simp add: zero_less_divide_iff)
qed

lemma half_plane_ring_keep:
  "half_plane_ring p0 n_out True E =
     (let ux = fst (normalize_v n_out); uy = snd (normalize_v n_out); px = fst p0; py = snd p0
      in [(px - uy * E, py + ux * E), (px + uy * E, py - ux * E),
          (px + uy * E - ux * E, py - ux * E - uy * E),
          (px - uy * E - ux * E, py + ux * E - uy * E)])"
  by (simp add: half_plane_ring_def Let_def case_prod_beta)

lemma quad_forward:
  fixes ux uy E px py :: real
  assumes unit: "ux\<^sup>2 + uy\<^sup>2 = 1" and E: "0 < E"
    and w: "0 \<le> wa" "0 \<le> wb" "0 \<le> wc" "0 \<le> wd" "wa + wb + wc + wd = 1"
    and X: "X = wa * (px - uy * E) + wb * (px + uy * E) + wc * (px + uy * E - ux * E)
                + wd * (px - uy * E - ux * E)"
    and Y: "Y = wa * (py + ux * E) + wb * (py - ux * E) + wc * (py - ux * E - uy * E)
                + wd * (py + ux * E - uy * E)"
  shows "\<bar>(X - px) * (- uy) + (Y - py) * ux\<bar> \<le> E"
    and "- E \<le> (X - px) * ux + (Y - py) * uy"
    and "(X - px) * ux + (Y - py) * uy \<le> 0"
proof -
  have dX: "X - px = E * (- uy * (wa - wb - wc + wd) - ux * (wc + wd))"
  proof -
    have "X = px * (wa + wb + wc + wd) + E * (- uy * (wa - wb - wc + wd) - ux * (wc + wd))"
      unfolding X by (simp add: algebra_simps)
    then show ?thesis using w(5) by simp
  qed
  have dY: "Y - py = E * (ux * (wa - wb - wc + wd) - uy * (wc + wd))"
  proof -
    have "Y = py * (wa + wb + wc + wd) + E * (ux * (wa - wb - wc + wd) - uy * (wc + wd))"
      unfolding Y by (simp add: algebra_simps)
    then show ?thesis using w(5) by simp
  qed
  have s: "(X - px) * (- uy) + (Y - py) * ux = E * (wa - wb - wc + wd)"
  proof -
    have "(X - px) * (- uy) + (Y - py) * ux = E * (wa - wb - wc + wd) * (ux\<^sup>2 + uy\<^sup>2)"
      unfolding dX dY by (simp add: algebra_simps power2_eq_square)
    then show ?thesis by (simp add: unit)
  qed
  have d: "(X - px) * ux + (Y - py) * uy = - (E * (wc + wd))"
  proof -
    have "(X - px) * ux + (Y - py) * uy = - (E * (wc + wd) * (ux\<^sup>2 + uy\<^sup>2))"
      unfolding dX dY by (simp add: algebra_simps power2_eq_square)
    then show ?thesis by (simp add: unit)
  qed
  have k: "\<bar>wa - wb - wc + wd\<bar> \<le> 1" using w by linarith
  have "\<bar>E * (wa - wb - wc + wd)\<bar> = E * \<bar>wa - wb - wc + wd\<bar>"
    using E by (simp add: abs_mult)
  also have "\<dots> \<le> E * 1"
    using k E by (intro mult_left_mono) auto
  finally have "\<bar>E * (wa - wb - wc + wd)\<bar> \<le> E" by simp
  then show "\<bar>(X - px) * (- uy) + (Y - py) * ux\<bar> \<le> E"
    unfolding s .
  have v0: "0 \<le> wc + wd" and v1: "wc + wd \<le> 1" using w by linarith+
  have "E * (wc + wd) \<le> E * 1" using v1 E by (intro mult_left_mono) auto
  then show "- E \<le> (X - px) * ux + (Y - py) * uy" unfolding d by simp
  have "0 \<le> E * (wc + wd)" using v0 E by simp
  then show "(X - px) * ux + (Y - py) * uy \<le> 0" unfolding d by simp
qed

lemma quad_backward:
  fixes ux uy E px py X Y :: real
  assumes unit: "ux\<^sup>2 + uy\<^sup>2 = 1" and E: "0 < E"
    and s: "\<bar>(X - px) * (- uy) + (Y - py) * ux\<bar> \<le> E"
    and d1: "- E \<le> (X - px) * ux + (Y - py) * uy"
    and d2: "(X - px) * ux + (Y - py) * uy \<le> 0"
  shows "\<exists>wa wb wc wd. 0 \<le> wa \<and> 0 \<le> wb \<and> 0 \<le> wc \<and> 0 \<le> wd \<and> wa + wb + wc + wd = 1
      \<and> X = wa * (px - uy * E) + wb * (px + uy * E) + wc * (px + uy * E - ux * E)
                + wd * (px - uy * E - ux * E)
      \<and> Y = wa * (py + ux * E) + wb * (py - ux * E) + wc * (py - ux * E - uy * E)
                + wd * (py + ux * E - uy * E)"
proof -
  define sg where "sg = ((X - px) * (- uy) + (Y - py) * ux) / E"
  define v where "v = - ((X - px) * ux + (Y - py) * uy) / E"
  define wa where "wa = (1 - v) * (1 + sg) / 2"
  define wb where "wb = (1 - v) * (1 - sg) / 2"
  define wc where "wc = v * (1 - sg) / 2"
  define wd where "wd = v * (1 + sg) / 2"
  have sg: "- 1 \<le> sg" "sg \<le> 1"
    using s E by (simp_all add: sg_def abs_le_iff pos_le_divide_eq pos_divide_le_eq)
  have v: "0 \<le> v" "v \<le> 1"
    using d1 d2 E by (simp_all add: v_def pos_le_divide_eq pos_divide_le_eq)
  have nn: "0 \<le> wa" "0 \<le> wb" "0 \<le> wc" "0 \<le> wd"
    using sg v by (simp_all add: wa_def wb_def wc_def wd_def)
  have sum: "wa + wb + wc + wd = 1"
    unfolding wa_def wb_def wc_def wd_def by (simp add: field_simps)
  have k1: "wa - wb - wc + wd = sg"
    unfolding wa_def wb_def wc_def wd_def by (simp add: field_simps)
  have k2: "wc + wd = v"
    unfolding wa_def wb_def wc_def wd_def by (simp add: field_simps)
  define S where "S = (X - px) * (- uy) + (Y - py) * ux"
  define D where "D = (X - px) * ux + (Y - py) * uy"
  have Es: "E * sg = S"
    using E by (simp add: sg_def S_def)
  have Ev: "E * v = - D"
    using E by (simp add: v_def D_def)
  have "wa * (px - uy * E) + wb * (px + uy * E) + wc * (px + uy * E - ux * E)
          + wd * (px - uy * E - ux * E)
        = px * (wa + wb + wc + wd) - uy * (E * (wa - wb - wc + wd)) - ux * (E * (wc + wd))"
    by (simp add: algebra_simps)
  also have "\<dots> = px - uy * S + ux * D"
    unfolding sum k1 k2 Es Ev by simp
  also have "\<dots> = px + (X - px) * (ux\<^sup>2 + uy\<^sup>2)"
    by (simp add: S_def D_def algebra_simps power2_eq_square)
  also have "\<dots> = X" by (simp add: unit)
  finally have X: "X = wa * (px - uy * E) + wb * (px + uy * E) + wc * (px + uy * E - ux * E)
          + wd * (px - uy * E - ux * E)" by simp
  have "wa * (py + ux * E) + wb * (py - ux * E) + wc * (py - ux * E - uy * E)
          + wd * (py + ux * E - uy * E)
        = py * (wa + wb + wc + wd) + ux * (E * (wa - wb - wc + wd)) - uy * (E * (wc + wd))"
    by (simp add: algebra_simps)
  also have "\<dots> = py + ux * S + uy * D"
    unfolding sum k1 k2 Es Ev by simp
  also have "\<dots> = py + (Y - py) * (ux\<^sup>2 + uy\<^sup>2)"
    by (simp add: S_def D_def algebra_simps power2_eq_square)
  also have "\<dots> = Y" by (simp add: unit)
  finally have Y: "Y = wa * (py + ux * E) + wb * (py - ux * E) + wc * (py - ux * E - uy * E)
          + wd * (py + ux * E - uy * E)" by simp
  show ?thesis using nn sum X Y by blast
qed

lemma hull_half_plane_ring:
  assumes nz: "1 / 10 ^ 12 \<le> hypot (fst n_out) (snd n_out)" and E: "0 < E"
  shows "convex_hull (half_plane_ring p0 n_out True E) = keep_quad p0 n_out E"
proof -
  define ux where "ux = fst (normalize_v n_out)"
  define uy where "uy = snd (normalize_v n_out)"
  define px where "px = fst p0"
  define py where "py = snd p0"
  have unit: "ux\<^sup>2 + uy\<^sup>2 = 1"
    unfolding ux_def uy_def by (rule normalize_v_unit[OF nz])
  have ring: "half_plane_ring p0 n_out True E =
      [(px - uy * E, py + ux * E), (px + uy * E, py - ux * E),
       (px + uy * E - ux * E, py - ux * E - uy * E),
       (px - uy * E - ux * E, py + ux * E - uy * E)]"
    by (simp add: half_plane_ring_keep Let_def ux_def uy_def px_def py_def)
  have offs: "tangent_offset p0 n_out (X, Y) = (X - px) * (- uy) + (Y - py) * ux"
    "normal_offset p0 n_out (X, Y) = (X - px) * ux + (Y - py) * uy" for X Y
    by (simp_all add: tangent_offset_def normal_offset_def dot_def vsub_def
        ux_def uy_def px_def py_def)
  show ?thesis
  proof (intro set_eqI iffI)
    fix x assume "x \<in> convex_hull (half_plane_ring p0 n_out True E)"
    then obtain wa wb wc wd where w: "0 \<le> wa" "0 \<le> wb" "0 \<le> wc" "0 \<le> wd"
      "wa + wb + wc + wd = 1"
      and X: "fst x = wa * (px - uy * E) + wb * (px + uy * E) + wc * (px + uy * E - ux * E)
                + wd * (px - uy * E - ux * E)"
      and Y: "snd x = wa * (py + ux * E) + wb * (py - ux * E) + wc * (py - ux * E - uy * E)
                + wd * (py + ux * E - uy * E)"
      unfolding ring convex_hull_4 by auto
    from quad_forward[OF unit E w X Y]
    show "x \<in> keep_quad p0 n_out E"
      using offs[of "fst x" "snd x"] by (simp add: keep_quad_def)
  next
    fix x assume "x \<in> keep_quad p0 n_out E"
    then have "\<bar>(fst x - px) * (- uy) + (snd x - py) * ux\<bar> \<le> E"
      "- E \<le> (fst x - px) * ux + (snd x - py) * uy"
      "(fst x - px) * ux + (snd x - py) * uy \<le> 0"
      using offs[of "fst x" "snd x"] by (simp_all add: keep_quad_def)
    from quad_backward[OF unit E this]
    obtain wa wb wc wd where "0 \<le> wa" "0 \<le> wb" "0 \<le> wc" "0 \<le> wd"
      "wa + wb + wc + wd = 1"
      "fst x = wa * (px - uy * E) + wb * (px + uy * E) + wc * (px + uy * E - ux * E)
                + wd * (px - uy * E - ux * E)"
      "snd x = wa * (py + ux * E) + wb * (py - ux * E) + wc * (py - ux * E - uy * E)
                + wd * (py + ux * E - uy * E)"
      by blast
    then show "x \<in> convex_hull (half_plane_ring p0 n_out True E)"
      unfolding ring convex_hull_4
      by (intro CollectI exI[of _ wa] exI[of _ wb] exI[of _ wc] exI[of _ wd])
         (simp add: prod_eq_iff)
  qed
qed

lemma clip_cases:
  assumes c: "clip_contract lib pts_of poly p0 n_out"
  defines "out \<equiv> intersection lib poly (half_plane_polygon lib p0 n_out True 10000)"
  shows "pts_of out = {} \<Longrightarrow> clip_with_flat lib poly p0 n_out
           = Inl (RuntimeError ''Flat clipping produced empty geometry. Check parameters.'')"
    and "pts_of out \<noteq> {} \<Longrightarrow>
           \<exists>r. clip_with_flat lib poly p0 n_out = Inr r \<and> pts_of r \<subseteq> pts_of out
               \<and> (geom_type lib out \<noteq> ''MultiPolygon'' \<longrightarrow> r = out)
               \<and> (geom_type lib out = ''MultiPolygon'' \<longrightarrow> geom_type lib r = ''Polygon'')"
proof -
  have e: "is_empty lib out \<longleftrightarrow> pts_of out = {}"
    and m: "geom_type lib out = ''MultiPolygon'' \<Longrightarrow>
              geoms lib out \<noteq> []
              \<and> (\<forall>g \<in> set (geoms lib out).
                    pts_of g \<subseteq> pts_of out \<and> geom_type lib g = ''Polygon'')"
    using c unfolding clip_contract_def Let_def out_def by blast+
  show "pts_of out = {} \<Longrightarrow> clip_with_flat lib poly p0 n_out
           = Inl (RuntimeError ''Flat clipping produced empty geometry. Check parameters.'')"
    using e by (simp add: clip_with_flat_def Let_def out_def)
  assume ne: "pts_of out \<noteq> {}"
  show "\<exists>r. clip_with_flat lib poly p0 n_out = Inr r \<and> pts_of r \<subseteq> pts_of out
               \<and> (geom_type lib out \<noteq> ''MultiPolygon'' \<longrightarrow> r = out)
               \<and> (geom_type lib out = ''MultiPolygon'' \<longrightarrow> geom_type lib r = ''Polygon'')"
  proof (cases "geom_type lib out = ''MultiPolygon''")
    case True
    from m[OF True] have g: "geoms lib out \<noteq> []"
      and s: "\<forall>g \<in> set (geoms lib out).
                pts_of g \<subseteq> pts_of out \<and> geom_type lib g = ''Polygon''" by auto
    from max_key_largest[OF g, of "area lib"] obtain r where
      r: "r \<in> set (geoms lib out)" "max_key (area lib) (geoms lib out) = Inr r" by blast
    have "clip_with_flat lib poly p0 n_out = Inr r"
      using e ne True r(2) by (simp add: clip_with_flat_def Let_def out_def)
    then show ?thesis using r(1) s True by auto
  next
    case False
    have "clip_with_flat lib poly p0 n_out = Inr out"
      using e ne False by (simp add: clip_with_flat_def Let_def out_def)
    then show ?thesis using False by simp
  qed
qed

lemma contract_points:
  assumes c: "clip_contract lib pts_of poly p0 n_out"
    and nz: "1 / 10 ^ 12 \<le> hypot (fst n_out) (snd n_out)"
  shows "pts_of (intersection lib poly (half_plane_polygon lib p0 n_out True 10000))
           = pts_of poly \<inter> keep_quad p0 n_out 10000"
proof -
  have "pts_of (half_plane_polygon lib p0 n_out True 10000) = keep_quad p0 n_out 10000"
    using c hull_half_plane_ring[OF nz, of 10000 p0]
    unfolding clip_contract_def Let_def by simp
  moreover have "pts_of (intersection lib poly (half_plane_polygon lib p0 n_out True 10000))
      = pts_of poly \<inter> pts_of (half_plane_polygon lib p0 n_out True 10000)"
    using c unfolding clip_contract_def Let_def by blast
  ultimately show ?thesis by simp
qed

lemma keep_quad_split:
  assumes nz: "1 / 10 ^ 12 \<le> hypot (fst n_out) (snd n_out)"
  shows "keep_quad p0 n_out E = within_extent p0 n_out E \<inter> keep_region p0 n_out"
  using normal_offset_sign(1)[OF nz, of p0]
  by (auto simp: keep_quad_def within_extent_def keep_region_def)

lemma remove_side_disjoint:
  assumes nz: "1 / 10 ^ 12 \<le> hypot (fst n_out) (snd n_out)"
  shows "remove_side p0 n_out \<inter> keep_quad p0 n_out E = {}"
  unfolding keep_quad_split[OF nz] by (auto simp: remove_side_def keep_region_def)

lemma nz_x: "1 / 10 ^ 12 \<le> hypot (fst (1 :: real, 0 :: real)) (snd (1 :: real, 0 :: real))"
  by (simp add: hypot_def)

lemma rect_hp_x:
  "half_plane_polygon rect_kernel (x, y) (1, 0) True 10000
     = RBox (x - 10000) (y - 10000) x (y + 10000)"
  by (simp add: half_plane_polygon_def hp_ring_x rect_kernel_def)

lemma keep_quad_x:
  "keep_quad (x, y) (1, 0) 10000 = r_points (RBox (x - 10000) (y - 10000) x (y + 10000))"
  by (auto simp: keep_quad_def tangent_offset_def normal_offset_def normalize_v_def hypot_def
      dot_def vsub_def abs_le_iff)

lemma keep_region_x: "keep_region (x, y) (1, 0) = {p. fst p \<le> x}"
  by (auto simp: keep_region_def dot_def vsub_def)

lemma remove_side_x: "remove_side (x, y) (1, 0) = {p. x < fst p}"
  by (auto simp: remove_side_def dot_def vsub_def)

lemma rect_contract_overlap:
  assumes "max a0 (x - 10000) < min a1 x" "max b0 (y - 10000) < min b1 (y + 10000)"
  shows "clip_contract rect_kernel r_points (RBox a0 b0 a1 b1) (x, y) (1, 0)"
proof -
  have h: "r_points (RBox (x - 10000) (y - 10000) x (y + 10000))
             = convex_hull (half_plane_ring (x, y) (1, 0) True 10000)"
    using hull_half_plane_ring[OF nz_x, of 10000 "(x, y)"] keep_quad_x[of x y] by simp
  have o: "r_intersection (RBox a0 b0 a1 b1) (RBox (x - 10000) (y - 10000) x (y + 10000))
             = RBox (max a0 (x - 10000)) (max b0 (y - 10000)) (min a1 x) (min b1 (y + 10000))"
    using assms by (simp add: box_meet_def Let_def)
  have p: "r_points (RBox (max a0 (x - 10000)) (max b0 (y - 10000)) (min a1 x) (min b1 (y + 10000)))
             = r_points (RBox a0 b0 a1 b1) \<inter> r_points (RBox (x - 10000) (y - 10000) x (y + 10000))"
    by auto
  have ne: "r_points (RBox (max a0 (x - 10000)) (max b0 (y - 10000)) (min a1 x) (min b1 (y + 10000)))
             \<noteq> {}"
  proof -
    have "(max a0 (x - 10000), max b0 (y - 10000))
            \<in> r_points (RBox (max a0 (x - 10000)) (max b0 (y - 10000)) (min a1 x) (min b1 (y + 10000)))"
      using assms by simp
    then show ?thesis by blast
  qed
  show ?thesis
    unfolding clip_contract_def Let_def rect_hp_x
    using h o p ne by (simp add: rect_kernel_def)
qed

lemma rect_contract_apart:
  assumes "min a1 x < max a0 (x - 10000) \<or> min b1 (y + 10000) < max b0 (y - 10000)"
  shows "clip_contract rect_kernel r_points (RBox a0 b0 a1 b1) (x, y) (1, 0)"
proof -
  have h: "r_points (RBox (x - 10000) (y - 10000) x (y + 10000))
             = convex_hull (half_plane_ring (x, y) (1, 0) True 10000)"
    using hull_half_plane_ring[OF nz_x, of 10000 "(x, y)"] keep_quad_x[of x y] by simp
  have o: "r_intersection (RBox a0 b0 a1 b1) (RBox (x - 10000) (y - 10000) x (y + 10000)) = REmpty"
    using assms by (auto simp: box_meet_def Let_def)
  have p: "r_points (RBox a0 b0 a1 b1) \<inter> r_points (RBox (x - 10000) (y - 10000) x (y + 10000)) = {}"
    using assms by auto
  show ?thesis
    unfolding clip_contract_def Let_def rect_hp_x
    using h o p by (simp add: rect_kernel_def)
qed

lemma rect_clip_x:
  "clip_with_flat rect_kernel (RBox a0 b0 a1 b1) (x, y) (1, 0)
     = (let out = box_meet a0 b0 a1 b1 (x - 10000) (y - 10000) x (y + 10000)
        in if r_is_empty out
           then Inl (RuntimeError ''Flat clipping produced empty geometry. Check parameters.'')
           else if r_geom_type out = ''MultiPolygon'' then max_key r_area (r_geoms out)
           else Inr out)"
  unfolding clip_with_flat_def rect_hp_x by (simp add: rect_kernel_def Let_def)

lemma b_points_meet: "b_points (b_meet a b) = b_points a \<inter> b_points b"
  by (cases a; cases b) auto

lemma b_empty_iff: "b_is_empty b \<longleftrightarrow> b_points b = {}"
proof (cases b)
  case (fields x0 y0 x1 y1)
  show ?thesis
  proof (cases "x1 < x0 \<or> y1 < y0")
    case True
    then show ?thesis unfolding fields by auto
  next
    case False
    then have "(x0, y0) \<in> b_points b" unfolding fields by simp
    then show ?thesis using False unfolding fields by auto
  qed
qed

lemma b_area_mono:
  assumes "b_points a \<subseteq> b_points b"
  shows "b_area a \<le> b_area b"
proof (cases a; cases b)
  fix a0 b0 a1 b1 c0 d0 c1 d1
  assume a: "a = (a0, b0, a1, b1)" and b: "b = (c0, d0, c1, d1)"
  show ?thesis
  proof (cases "a0 \<le> a1 \<and> b0 \<le> b1")
    case True
    then have "(a0, b0) \<in> b_points a" "(a1, b1) \<in> b_points a"
      unfolding a by simp_all
    then have "(a0, b0) \<in> b_points b" "(a1, b1) \<in> b_points b"
      using assms by blast+
    then have w: "a1 - a0 \<le> c1 - c0" and h: "b1 - b0 \<le> d1 - d0"
      unfolding b by simp_all
    have "max 0 (a1 - a0) * max 0 (b1 - b0) \<le> max 0 (c1 - c0) * max 0 (d1 - d0)"
      using w h by (intro mult_mono) auto
    then show ?thesis unfolding a b by simp
  next
    case False
    then have z: "max 0 (a1 - a0) * max 0 (b1 - b0) = 0" by auto
    have "0 \<le> max 0 (c1 - c0) * max 0 (d1 - d0)" by simp
    then have "max 0 (a1 - a0) * max 0 (b1 - b0) \<le> max 0 (c1 - c0) * max 0 (d1 - d0)"
      unfolding z .
    then show ?thesis unfolding a b by simp
  qed
qed

lemma bbox_hp_x:
  "half_plane_polygon bbox_kernel (x, y) (1, 0) True 10000
     = (x - 10000, y - 10000, x, y + 10000)"
  by (simp add: half_plane_polygon_def hp_ring_x bbox_kernel_def)

lemma bbox_contract:
  "clip_contract bbox_kernel b_points poly (x, y) (1, 0)"
proof -
  have h: "b_points (x - 10000, y - 10000, x, y + 10000)
             = convex_hull (half_plane_ring (x, y) (1, 0) True 10000)"
    using hull_half_plane_ring[OF nz_x, of 10000 "(x, y)"] keep_quad_x[of x y] by simp
  show ?thesis
    unfolding clip_contract_def Let_def bbox_hp_x
    using h by (simp add: bbox_kernel_def b_points_meet b_empty_iff)
qed

lemma bbox_mono:
  "\<forall>a b. b_points a \<subseteq> b_points b \<longrightarrow> area bbox_kernel a \<le> area bbox_kernel b"
  using b_area_mono by (simp add: bbox_kernel_def)

lemma bbox_clip_x:
  "clip_with_flat bbox_kernel b (x, y) (1, 0)
     = (let out = b_meet b (x - 10000, y - 10000, x, y + 10000)
        in if b_is_empty out
           then Inl (RuntimeError ''Flat clipping produced empty geometry. Check parameters.'')
           else Inr out)"
  unfolding clip_with_flat_def bbox_hp_x by (simp add: bbox_kernel_def Let_def)


text \<open>
  C1, as the code has it. The half-plane is the quadrilateral of extent 10000 that
  \<open>half_plane_polygon\<close> builds, not the unbounded keep region. For an outward normal
  of length at least \<open>1e-12\<close> (one that \<open>normalize\<close> does not reject) and a kernel
  that keeps its contract, \<open>clip_with_flat\<close> raises its \<open>RuntimeError\<close> exactly when
  no point of the polygon lies in \<open>keep_quad\<close>; when some point does and the kernel
  gives the intersection as a \<open>Polygon\<close> or a \<open>MultiPolygon\<close>, it returns a
  \<open>Polygon\<close>; a polygon entirely on the remove side fails; and for a polygon
  within the extent of the anchor, failing is the same as having no point in the
  keep region.
\<close>

theorem clip_fails_iff_empty_within_extent:
  assumes c: "clip_contract lib pts_of poly p0 n_out"
    and nz: "1 / 10 ^ 12 \<le> hypot (fst n_out) (snd n_out)"
  shows "(clip_with_flat lib poly p0 n_out
            = Inl (RuntimeError ''Flat clipping produced empty geometry. Check parameters.'')
          \<longleftrightarrow> pts_of poly \<inter> keep_quad p0 n_out 10000 = {})
       \<and> (pts_of poly \<inter> keep_quad p0 n_out 10000 \<noteq> {}
            \<and> geom_type lib (intersection lib poly (half_plane_polygon lib p0 n_out True 10000))
                \<in> {''Polygon'', ''MultiPolygon''} \<longrightarrow>
            (\<exists>g. clip_with_flat lib poly p0 n_out = Inr g \<and> geom_type lib g = ''Polygon''))
       \<and> (pts_of poly \<subseteq> remove_side p0 n_out \<longrightarrow>
            clip_with_flat lib poly p0 n_out
              = Inl (RuntimeError ''Flat clipping produced empty geometry. Check parameters.''))
       \<and> (pts_of poly \<subseteq> within_extent p0 n_out 10000 \<longrightarrow>
            (clip_with_flat lib poly p0 n_out
               = Inl (RuntimeError ''Flat clipping produced empty geometry. Check parameters.'')
             \<longleftrightarrow> pts_of poly \<inter> keep_region p0 n_out = {}))"
proof -
  let ?fail = "clip_with_flat lib poly p0 n_out
            = Inl (RuntimeError ''Flat clipping produced empty geometry. Check parameters.'')"
  let ?Q = "pts_of poly \<inter> keep_quad p0 n_out 10000"
  let ?out = "intersection lib poly (half_plane_polygon lib p0 n_out True 10000)"
  note p = contract_points[OF c nz]
  have a: "?fail \<longleftrightarrow> ?Q = {}"
  proof
    assume ?fail
    then show "?Q = {}"
      using clip_cases(2)[OF c] p by auto
  next
    assume "?Q = {}"
    then show ?fail using clip_cases(1)[OF c] p by simp
  qed
  have b: "?Q \<noteq> {} \<and> geom_type lib ?out \<in> {''Polygon'', ''MultiPolygon''} \<longrightarrow>
             (\<exists>g. clip_with_flat lib poly p0 n_out = Inr g \<and> geom_type lib g = ''Polygon'')"
  proof
    assume h: "?Q \<noteq> {} \<and> geom_type lib ?out \<in> {''Polygon'', ''MultiPolygon''}"
    then have "pts_of ?out \<noteq> {}" using p by simp
    from clip_cases(2)[OF c this] obtain r where
      r: "clip_with_flat lib poly p0 n_out = Inr r"
        "geom_type lib ?out \<noteq> ''MultiPolygon'' \<longrightarrow> r = ?out"
        "geom_type lib ?out = ''MultiPolygon'' \<longrightarrow> geom_type lib r = ''Polygon''"
      by blast
    have "geom_type lib r = ''Polygon''"
    proof (cases "geom_type lib ?out = ''MultiPolygon''")
      case True
      then show ?thesis using r(3) by simp
    next
      case False
      then have "r = ?out" "geom_type lib ?out = ''Polygon''" using r(2) h by auto
      then show ?thesis by simp
    qed
    with r(1) show "\<exists>g. clip_with_flat lib poly p0 n_out = Inr g \<and> geom_type lib g = ''Polygon''"
      by blast
  qed
  have r: "pts_of poly \<subseteq> remove_side p0 n_out \<longrightarrow> ?fail"
    unfolding a using remove_side_disjoint[OF nz, of p0 10000] by blast
  have w: "pts_of poly \<subseteq> within_extent p0 n_out 10000 \<longrightarrow>
            (?fail \<longleftrightarrow> pts_of poly \<inter> keep_region p0 n_out = {})"
    unfolding a keep_quad_split[OF nz] by blast
  show ?thesis using a b r w by blast
qed

theorem clip_fails_iff_empty_within_extent_witness:
  "clip_with_flat rect_kernel (RBox 0 0 400 200) (338, 100) (1, 0) = Inr (RBox 0 0 338 200)
   \<and> geom_type rect_kernel (RBox 0 0 338 200) = ''Polygon''
   \<and> r_points (RBox 0 0 400 200) \<inter> keep_quad (338, 100) (1, 0) 10000 \<noteq> {}
   \<and> clip_with_flat rect_kernel (RBox 0 0 400 200) (- 5, 100) (1, 0)
       = Inl (RuntimeError ''Flat clipping produced empty geometry. Check parameters.'')"
proof -
  have c1: "clip_contract rect_kernel r_points (RBox 0 0 400 200) (338, 100) (1, 0)"
    by (rule rect_contract_overlap) simp_all
  have c2: "clip_contract rect_kernel r_points (RBox 0 0 400 200) (- 5, 100) (1, 0)"
    by (rule rect_contract_apart) simp
  have r: "r_points (RBox 0 0 400 200) \<subseteq> remove_side (- 5, 100) (1, 0)"
    by (auto simp: remove_side_x)
  have e: "clip_with_flat rect_kernel (RBox 0 0 400 200) (338, 100) (1, 0) = Inr (RBox 0 0 338 200)"
    by (simp add: rect_clip_x box_meet_def)
  have t: "geom_type rect_kernel (RBox 0 0 338 200) = ''Polygon''"
    by (simp add: rect_kernel_def)
  show ?thesis
    using clip_fails_iff_empty_within_extent[OF c1 nz_x]
      clip_fails_iff_empty_within_extent[OF c2 nz_x] r e t
    by auto
qed

text \<open>
  A unit square 20000 units behind the anchor lies in the keep region, and the clip
  fails on it.
\<close>

theorem clip_far_polygon_counterexample:
  "clip_with_flat rect_kernel (RBox (- 20001) 0 (- 20000) 1) (0, 0) (1, 0)
     = Inl (RuntimeError ''Flat clipping produced empty geometry. Check parameters.'')
   \<and> (- 20000, 0) \<in> r_points (RBox (- 20001) 0 (- 20000) 1) \<inter> keep_region (0, 0) (1, 0)"
  by (simp add: rect_clip_x box_meet_def keep_region_x)

text \<open>
  When the cut line runs along an edge of the polygon, the kernel gives the
  intersection as a line string, and that is what \<open>clip_with_flat\<close> returns.
\<close>

lemma clip_touching_edge:
  "clip_with_flat rect_kernel (RBox 0 0 400 200) (0, 100) (1, 0) = Inr (RSeg (0, 0) (0, 200))
   \<and> geom_type rect_kernel (RSeg (0, 0) (0, 200)) = ''LineString''"
proof -
  have "clip_with_flat rect_kernel (RBox 0 0 400 200) (0, 100) (1, 0) = Inr (RSeg (0, 0) (0, 200))"
    by (simp add: rect_clip_x box_meet_def)
  moreover have "geom_type rect_kernel (RSeg (0, 0) (0, 200)) = ''LineString''"
    by (simp add: rect_kernel_def)
  ultimately show ?thesis by simp
qed




text \<open>
  C7, as the code has it. For an outward normal of length at least \<open>1e-12\<close>, a kernel
  that keeps its contract and whose area never decreases from a geometry to one that
  covers it: when the polygon is not empty, every point of it lies in \<open>keep_quad\<close>
  (on the keep side and within 10000 of the anchor) and the kernel gives the
  intersection as a single polygon, \<open>clip_with_flat\<close> returns a geometry that covers the
  same points and has the same area.
\<close>

theorem clip_identity_within_extent:
  assumes c: "clip_contract lib pts_of poly p0 n_out"
    and nz: "1 / 10 ^ 12 \<le> hypot (fst n_out) (snd n_out)"
    and mono: "\<forall>a b. pts_of a \<subseteq> pts_of b \<longrightarrow> area lib a \<le> area lib b"
    and ne: "pts_of poly \<noteq> {}"
    and inside: "pts_of poly \<subseteq> keep_quad p0 n_out 10000"
    and single: "geom_type lib (intersection lib poly (half_plane_polygon lib p0 n_out True 10000))
                   \<noteq> ''MultiPolygon''"
  shows "\<exists>r. clip_with_flat lib poly p0 n_out = Inr r \<and> pts_of r = pts_of poly
             \<and> area lib r = area lib poly"
proof -
  let ?out = "intersection lib poly (half_plane_polygon lib p0 n_out True 10000)"
  have p: "pts_of ?out = pts_of poly"
    using contract_points[OF c nz] inside by auto
  with ne have "pts_of ?out \<noteq> {}" by simp
  from clip_cases(2)[OF c this] single
  have r: "clip_with_flat lib poly p0 n_out = Inr ?out" by auto
  have "area lib ?out \<le> area lib poly" "area lib poly \<le> area lib ?out"
    using mono p by simp_all
  then have "area lib ?out = area lib poly" by simp
  with r p show ?thesis by simp
qed

theorem clip_identity_within_extent_witness:
  "\<exists>r. clip_with_flat bbox_kernel (0, 0, 400, 200) (500, 100) (1, 0) = Inr r
       \<and> b_points r = b_points (0, 0, 400, 200) \<and> area bbox_kernel r = 80000"
proof -
  have ne: "b_points (0, 0, 400, 200) \<noteq> {}"
  proof -
    have "(0, 0) \<in> b_points (0, 0, 400, 200)" by simp
    then show ?thesis by blast
  qed
  have inside: "b_points (0, 0, 400, 200) \<subseteq> keep_quad (500, 100) (1, 0) 10000"
    unfolding keep_quad_x by auto
  have single: "geom_type bbox_kernel (intersection bbox_kernel (0, 0, 400, 200)
               (half_plane_polygon bbox_kernel (500, 100) (1, 0) True 10000)) \<noteq> ''MultiPolygon''"
    by (simp add: bbox_kernel_def)
  have a: "area bbox_kernel (0, 0, 400, 200) = 80000"
    by (simp add: bbox_kernel_def)
  from clip_identity_within_extent[OF bbox_contract nz_x bbox_mono ne inside single]
  show ?thesis unfolding a .
qed

text \<open>
  A polygon 30000 long with the anchor just beyond its end, outside its bounding box,
  lies on the keep side; the clip returns only the last 9999 units of it.
\<close>

theorem clip_long_polygon_counterexample:
  "clip_with_flat rect_kernel (RBox 0 0 30000 100) (30001, 50) (1, 0)
     = Inr (RBox 20001 0 30000 100)
   \<and> area rect_kernel (RBox 20001 0 30000 100) = 999900
   \<and> area rect_kernel (RBox 0 0 30000 100) = 3000000
   \<and> r_points (RBox 0 0 30000 100) \<subseteq> keep_region (30001, 50) (1, 0)
   \<and> (30001, 50) \<notin> r_points (RBox 0 0 30000 100)"
proof -
  have "clip_with_flat rect_kernel (RBox 0 0 30000 100) (30001, 50) (1, 0)
     = Inr (RBox 20001 0 30000 100)"
    by (simp add: rect_clip_x box_meet_def)
  moreover have "area rect_kernel (RBox 20001 0 30000 100) = 999900"
    "area rect_kernel (RBox 0 0 30000 100) = 3000000"
    by (simp_all add: rect_kernel_def)
  moreover have "r_points (RBox 0 0 30000 100) \<subseteq> keep_region (30001, 50) (1, 0)"
    by (auto simp: keep_region_x)
  moreover have "(30001, 50) \<notin> r_points (RBox 0 0 30000 100)"
    by simp
  ultimately show ?thesis by blast
qed

text \<open>
  C6. For a kernel that keeps its contract and whose area never decreases from a
  geometry to one that covers it, the geometry \<open>clip_with_flat\<close> returns covers only
  points of the input polygon, and its area is at most the area of the input.
\<close>

theorem clip_never_adds_area:
  assumes c: "clip_contract lib pts_of poly p0 n_out"
    and mono: "\<forall>a b. pts_of a \<subseteq> pts_of b \<longrightarrow> area lib a \<le> area lib b"
    and res: "clip_with_flat lib poly p0 n_out = Inr r"
  shows "pts_of r \<subseteq> pts_of poly \<and> area lib r \<le> area lib poly"
proof -
  let ?out = "intersection lib poly (half_plane_polygon lib p0 n_out True 10000)"
  have sub: "pts_of ?out \<subseteq> pts_of poly"
    using c unfolding clip_contract_def Let_def by blast
  have "pts_of ?out \<noteq> {}"
    using clip_cases(1)[OF c] res by auto
  from clip_cases(2)[OF c this] res
  have "pts_of r \<subseteq> pts_of ?out" by auto
  with sub have "pts_of r \<subseteq> pts_of poly" by blast
  with mono show ?thesis by blast
qed

theorem clip_never_adds_area_witness:
  "clip_with_flat bbox_kernel (0, 0, 400, 200) (338, 100) (1, 0) = Inr (0, 0, 338, 200)
   \<and> b_points (0, 0, 338, 200) \<subseteq> b_points (0, 0, 400, 200)
   \<and> area bbox_kernel (0, 0, 338, 200) = 67600
   \<and> area bbox_kernel (0, 0, 400, 200) = 80000"
proof -
  have e: "clip_with_flat bbox_kernel (0, 0, 400, 200) (338, 100) (1, 0) = Inr (0, 0, 338, 200)"
    by (simp add: bbox_clip_x)
  have a: "area bbox_kernel (0, 0, 338, 200) = 67600" "area bbox_kernel (0, 0, 400, 200) = 80000"
    by (simp_all add: bbox_kernel_def)
  from clip_never_adds_area[OF bbox_contract bbox_mono e] e a show ?thesis by simp
qed

end
